theory Spec2Isabelle
  imports Main
begin

section \<open>The line-highlight selector of the code block component\<close>

text \<open>
  The component \<open>Code\<close> calls \<open>calculateLinesToHighlight(metastring)\<close> once per code
  block and queries the returned closure with the 0-based position of every line:
  \<^verbatim>\<open>
  const calculateLinesToHighlight = (meta) => {
    const RegEx = /{([\d,-]+)}/;
    if (RegEx.test(meta)) {
      const lineNumbers = RegEx.exec(meta)[1]
        .split(",")
        .map((v) => v.split("-").map((y) => parseInt(y, 10)));
      return (index) => {
        const lineNumber = index + 1;
        const inRange = lineNumbers.some(([start, end]) =>
          end ? lineNumber >= start && lineNumber <= end : lineNumber === start
        );
        return inRange;
      };
    } else {
      return () => false;
    }
  };
  \<close>
  JavaScript values that occur are strings, \<open>undefined\<close>, \<open>NaN\<close>, the two infinities and
  Numbers with an integral value. A Number is a double: \<open>parseInt\<close> and \<open>index + 1\<close> give the
  double nearest to the mathematical result, which is that result itself only up to
  \<open>2^53\<close>. The rounding is part of the model.
\<close>

subsection \<open>Values\<close>

datatype jsval = Undefined | NaN | Num int | PosInfinity | NegInfinity

text \<open>\<open>ToBoolean\<close>: \<open>undefined\<close>, \<open>NaN\<close> and \<open>0\<close> are falsy.\<close>

fun truthy :: "jsval \<Rightarrow> bool" where
  "truthy Undefined = False"
| "truthy NaN = False"
| "truthy (Num n) = (n \<noteq> 0)"
| "truthy PosInfinity = True"
| "truthy NegInfinity = True"

text \<open>\<open>a <= b\<close> and \<open>a >= b\<close> convert \<open>undefined\<close> to \<open>NaN\<close>, and every comparison with
  \<open>NaN\<close> is false; on numbers \<open>a >= b\<close> is \<open>b <= a\<close>. \<open>a === b\<close> is false across types and
  for \<open>NaN\<close>, and \<open>undefined === undefined\<close> is true.\<close>

fun js_le :: "jsval \<Rightarrow> jsval \<Rightarrow> bool" where
  "js_le (Num a) (Num b) = (a \<le> b)"
| "js_le NegInfinity (Num b) = True"
| "js_le (Num a) PosInfinity = True"
| "js_le NegInfinity NegInfinity = True"
| "js_le NegInfinity PosInfinity = True"
| "js_le PosInfinity PosInfinity = True"
| "js_le _ _ = False"

definition js_ge :: "jsval \<Rightarrow> jsval \<Rightarrow> bool" where
  "js_ge a b = js_le b a"

fun js_strict_eq :: "jsval \<Rightarrow> jsval \<Rightarrow> bool" where
  "js_strict_eq (Num a) (Num b) = (a = b)"
| "js_strict_eq PosInfinity PosInfinity = True"
| "js_strict_eq NegInfinity NegInfinity = True"
| "js_strict_eq Undefined Undefined = True"
| "js_strict_eq _ _ = False"

subsection \<open>Numbers are doubles\<close>

text \<open>The number of binary digits of a positive integer.\<close>

function bit_length :: "int \<Rightarrow> nat" where
  "bit_length n = (if n \<le> 0 then 0 else Suc (bit_length (n div 2)))"
  by pat_completeness auto
termination
  by (relation "measure nat") auto

text \<open>A non-negative integer rounded to 53 significant binary digits, to nearest and on a
  tie to the even significand: the low \<open>e\<close> digits are dropped, and the significand goes up
  by one when they are more than half a unit, or exactly half with an odd significand.\<close>

definition round_half_even :: "int \<Rightarrow> int" where
  "round_half_even m =
     (let e = bit_length m - 53;
          q = m div 2 ^ e;
          r = m mod 2 ^ e;
          h = 2 ^ (e - 1)
      in (if r > h \<or> (r = h \<and> odd q) then q + 1 else q) * 2 ^ e)"

text \<open>The Number for a mathematical integer: the integer itself below \<open>2^53\<close>, else the
  nearest double, and an infinity when that reaches \<open>2^1024\<close>. So \<open>2^53 + 1\<close> becomes
  \<open>2^53\<close> and \<open>2^53 + 3\<close> becomes \<open>2^53 + 4\<close>.\<close>

definition to_number :: "int \<Rightarrow> jsval" where
  "to_number x =
     (if \<bar>x\<bar> < 2 ^ 53 then Num x
      else let v = round_half_even \<bar>x\<bar>
           in if v \<ge> 2 ^ 1024 then (if x < 0 then NegInfinity else PosInfinity)
              else Num (sgn x * v))"

text \<open>An integer that is the value of a Number, and \<open>Number.MAX_SAFE_INTEGER\<close>.\<close>

definition is_number :: "int \<Rightarrow> bool" where
  "is_number x = (to_number x = Num x)"

definition MAX_SAFE_INTEGER :: int where
  "MAX_SAFE_INTEGER = 2 ^ 53 - 1"

text \<open>\<open>ToString\<close> of the argument \<open>meta\<close>: a string, or \<open>undefined\<close> when the code fence
  carries no annotation.\<close>

fun toString :: "string option \<Rightarrow> string" where
  "toString None = ''undefined''"
| "toString (Some s) = s"

subsection \<open>The pattern \<open>/{([\d,-]+)}/\<close>\<close>

definition is_digit :: "char \<Rightarrow> bool" where
  "is_digit c = (c \<in> set ''0123456789'')"

text \<open>The character class \<open>[\d,-]\<close>.\<close>

definition is_cls :: "char \<Rightarrow> bool" where
  "is_cls c = (is_digit c \<or> c = CHR '','' \<or> c = CHR ''-'')"

text \<open>The rest of the pattern after one class character has been consumed: \<open>[\d,-]*}\<close>.
  The quantifier is greedy, so one more class character is tried first and the closing
  brace only when that fails. The result is the text consumed by the class.\<close>

fun cls_run :: "string \<Rightarrow> string option" where
  "cls_run [] = None"
| "cls_run (c # cs) =
     (case (if is_cls c then map_option ((#) c) (cls_run cs) else None) of
        Some b \<Rightarrow> Some b
      | None \<Rightarrow> if c = CHR ''}'' then Some [] else None)"

text \<open>The whole pattern anchored at the head of the input; the result is capture group 1.\<close>

fun match_at :: "string \<Rightarrow> string option" where
  "match_at (c # d # ds) =
     (if c = CHR ''{'' \<and> is_cls d then map_option ((#) d) (cls_run ds) else None)"
| "match_at _ = None"

text \<open>The leftmost match: its start offset and capture group 1.\<close>

fun search :: "string \<Rightarrow> (nat \<times> string) option" where
  "search [] = None"
| "search (c # cs) =
     (case match_at (c # cs) of
        Some cap \<Rightarrow> Some (0, cap)
      | None \<Rightarrow> map_option (\<lambda>(k, cap). (Suc k, cap)) (search cs))"

text \<open>A RegExp object: the \<open>g\<close> flag and the mutable \<open>lastIndex\<close>. \<open>exec\<close> starts at
  \<open>lastIndex\<close> and stores the end of the match there only under \<open>g\<close>; \<open>test\<close> is
  \<open>exec\<close> with the result compared to \<open>null\<close>. The literal of the source has no flag and
  is evaluated anew on every call of \<open>calculateLinesToHighlight\<close>.\<close>

record regexp =
  global :: bool
  lastIndex :: nat

definition regexp_exec :: "regexp \<Rightarrow> string \<Rightarrow> regexp \<times> string option" where
  "regexp_exec R S =
     (let i = (if global R then lastIndex R else 0) in
      case search (drop i S) of
        None \<Rightarrow> (if global R then R\<lparr>lastIndex := 0\<rparr> else R, None)
      | Some (k, cap) \<Rightarrow>
          (if global R then R\<lparr>lastIndex := i + k + length cap + 2\<rparr> else R, Some cap))"

definition regexp_test :: "regexp \<Rightarrow> string \<Rightarrow> regexp \<times> bool" where
  "regexp_test R S = (case regexp_exec R S of (R', m) \<Rightarrow> (R', m \<noteq> None))"

definition RegEx :: regexp where
  "RegEx = \<lparr>global = False, lastIndex = 0\<rparr>"

subsection \<open>\<open>split\<close> and \<open>parseInt\<close>\<close>

text \<open>\<open>s.split(sep)\<close> for a one-character separator: the pieces between the separators,
  empty pieces included; never the empty array.\<close>

fun split :: "char \<Rightarrow> string \<Rightarrow> string list" where
  "split sep [] = [[]]"
| "split sep (c # cs) =
     (if c = sep then [] # split sep cs
      else (case split sep cs of w # ws \<Rightarrow> (c # w) # ws | [] \<Rightarrow> [[c]]))"

definition is_space :: "char \<Rightarrow> bool" where
  "is_space c = (c \<in> set [CHR '' '', CHR 0x09, CHR 0x0A, CHR 0x0B, CHR 0x0C, CHR 0x0D])"

definition digit_val :: "char \<Rightarrow> int" where
  "digit_val c = int (of_char c) - 48"

definition digits_val :: "string \<Rightarrow> int" where
  "digits_val ds = foldl (\<lambda>acc c. 10 * acc + digit_val c) 0 ds"

text \<open>\<open>parseInt(y, 10)\<close>: leading white space (here the ASCII part of it) and one sign are
  skipped, the longest prefix of decimal digits is read, and no digit at all gives \<open>NaN\<close>;
  the result is the Number for the integer read.\<close>

definition parseInt :: "string \<Rightarrow> jsval" where
  "parseInt y =
     (let t = dropWhile is_space y;
          sgn = (if t \<noteq> [] \<and> hd t = CHR ''-'' then - 1 else 1);
          u = (if t \<noteq> [] \<and> (hd t = CHR ''-'' \<or> hd t = CHR ''+'') then tl t else t);
          ds = takeWhile is_digit u
      in if ds = [] then NaN else to_number (sgn * digits_val ds))"

subsection \<open>The selector\<close>

text \<open>Array destructuring \<open>[start, end]\<close>: a missing element is \<open>undefined\<close>.\<close>

fun elem :: "jsval list \<Rightarrow> nat \<Rightarrow> jsval" where
  "elem [] n = Undefined"
| "elem (x # xs) 0 = x"
| "elem (x # xs) (Suc n) = elem xs n"

text \<open>The callback given to \<open>some\<close>, with \<open>lineNumber\<close> as a parameter.\<close>

definition inRange :: "jsval \<Rightarrow> jsval list \<Rightarrow> bool" where
  "inRange lineNumber r =
     (let start = elem r 0; end = elem r 1
      in if truthy end then js_ge lineNumber start \<and> js_le lineNumber end
         else js_strict_eq lineNumber start)"

text \<open>The callback \<open>(v) => v.split("-").map((y) => parseInt(y, 10))\<close> applied to one
  comma-separated token, and the whole chain applied to capture group 1.\<close>

definition tokenRange :: "string \<Rightarrow> jsval list" where
  "tokenRange v = map parseInt (split CHR ''-'' v)"

definition parseLineNumbers :: "string \<Rightarrow> jsval list list" where
  "parseLineNumbers cap = map tokenRange (split CHR '','' cap)"

text \<open>The closure returned in the matching branch. The parameter is the integer value of
  the Number passed as \<open>index\<close>, and \<open>index + 1\<close> is the Number for the sum.\<close>

definition shouldHighlight :: "jsval list list \<Rightarrow> int \<Rightarrow> bool" where
  "shouldHighlight lineNumbers index =
     (let lineNumber = to_number (index + 1) in list_ex (inRange lineNumber) lineNumbers)"

datatype error = TypeError

text \<open>The body of \<open>calculateLinesToHighlight\<close> over the RegExp object it uses: the object
  after the calls, and the closure or the \<open>TypeError\<close> of reading \<open>[1]\<close> of \<open>null\<close>.\<close>

definition build :: "regexp \<Rightarrow> string option \<Rightarrow> regexp \<times> (error + (int \<Rightarrow> bool))" where
  "build R meta =
     (case regexp_test R (toString meta) of
        (R1, True) \<Rightarrow>
          (case regexp_exec R1 (toString meta) of
             (R2, None) \<Rightarrow> (R2, Inl TypeError)
           | (R2, Some cap) \<Rightarrow> (R2, Inr (shouldHighlight (parseLineNumbers cap))))
      | (R1, False) \<Rightarrow> (R1, Inr (\<lambda>index. False)))"

definition calculateLinesToHighlight :: "string option \<Rightarrow> error + (int \<Rightarrow> bool)" where
  "calculateLinesToHighlight meta = snd (build RegEx meta)"

text \<open>The use in \<open>Code\<close>: \<open>const shouldHighlightLine = calculateLinesToHighlight(metastring)\<close>
  followed by \<open>shouldHighlightLine(i)\<close> for a line position \<open>i\<close>.\<close>

definition shouldHighlightLine :: "string option \<Rightarrow> int \<Rightarrow> error + bool" where
  "shouldHighlightLine metastring i =
     (case calculateLinesToHighlight metastring of
        Inl e \<Rightarrow> Inl e
      | Inr p \<Rightarrow> Inr (p i))"

subsection \<open>Vocabulary of the statements\<close>

text \<open>A string contains a substring of the form \<open>{\<close>, one or more digits, commas and
  hyphens, \<open>}\<close>.\<close>

definition has_group :: "string \<Rightarrow> bool" where
  "has_group s \<longleftrightarrow>
     (\<exists>pre body post. s = pre @ CHR ''{'' # body @ CHR ''}'' # post \<and>
        body \<noteq> [] \<and> (\<forall>c\<in>set body. is_cls c))"

text \<open>A non-empty string of decimal digits: the written form of a line number.\<close>

definition is_digits :: "string \<Rightarrow> bool" where
  "is_digits ds = (ds \<noteq> [] \<and> list_all is_digit ds)"

section \<open>Properties\<close>

subsection \<open>Rounding\<close>

text \<open>Up to \<open>MAX_SAFE_INTEGER\<close> an integer is its own Number; beyond it the Number stays
  beyond it. So a comparison of any Number with a safe one is the comparison of the
  integers.\<close>

declare bit_length.simps [simp del]

lemma bit_length_lower: "0 < n \<Longrightarrow> 2 ^ (bit_length n - 1) \<le> n"
proof (induction n rule: bit_length.induct)
  case (1 n)
  show ?case
  proof (cases "n div 2 \<le> 0")
    case True
    with 1 have "n = 1" by linarith
    then show ?thesis by (simp add: bit_length.simps[of 1] bit_length.simps[of 0])
  next
    case False
    with 1 have ih: "2 ^ (bit_length (n div 2) - 1) \<le> n div 2" by simp
    from False have pos: "0 < bit_length (n div 2)"
      by (simp add: bit_length.simps[of "n div 2"])
    from 1 have "bit_length n = Suc (bit_length (n div 2))"
      by (simp add: bit_length.simps[of n])
    then have "(2::int) ^ (bit_length n - 1) = 2 * 2 ^ (bit_length (n div 2) - 1)"
      using pos by (cases "bit_length (n div 2)") simp_all
    also have "\<dots> \<le> 2 * (n div 2)" using ih by simp
    also have "\<dots> \<le> n" by simp
    finally show ?thesis .
  qed
qed

lemma bit_length_upper: "n < 2 ^ bit_length n"
proof (induction n rule: bit_length.induct)
  case (1 n)
  show ?case
  proof (cases "n \<le> 0")
    case True
    then have "n < 1" by simp
    also have "(1::int) \<le> 2 ^ bit_length n" by simp
    finally show ?thesis .
  next
    case False
    with 1 have ih: "n div 2 < 2 ^ bit_length (n div 2)" by simp
    from False have "bit_length n = Suc (bit_length (n div 2))"
      by (simp add: bit_length.simps[of n])
    with ih show ?thesis by simp
  qed
qed

lemma round_half_even_big:
  assumes "2 ^ 53 \<le> m"
  shows "2 ^ 53 \<le> round_half_even m"
proof -
  define e where "e = bit_length m - 53"
  have "(2::int) ^ 53 < 2 ^ bit_length m"
    using assms bit_length_upper[of m] by linarith
  then have bl: "53 < bit_length m" by (simp only: power_strict_increasing_iff) 
  then have e1: "1 \<le> e" and be: "bit_length m - 1 = 52 + e" by (simp_all add: e_def)
  from assms have "0 < m" by simp
  from bit_length_lower[OF this] have "2 ^ 52 * 2 ^ e \<le> m"
    by (simp only: be power_add)
  then have "(2 ^ 52 * 2 ^ e) div 2 ^ e \<le> m div 2 ^ e"
    by (rule zdiv_mono1) simp
  then have q: "2 ^ 52 \<le> m div 2 ^ e"
    by simp
  from e1 have "(2::int) ^ 1 \<le> 2 ^ e" by (intro power_increasing) simp_all
  then have p: "(2::int) \<le> 2 ^ e" by simp
  have "round_half_even m \<ge> (m div 2 ^ e) * 2 ^ e"
    by (simp add: round_half_even_def Let_def e_def)
  moreover have "(2::int) ^ 52 * 2 \<le> (m div 2 ^ e) * 2 ^ e"
    using q p by (intro mult_mono) simp_all
  ultimately show ?thesis by simp
qed

lemma to_number_safe: "\<bar>x\<bar> \<le> MAX_SAFE_INTEGER \<Longrightarrow> to_number x = Num x"
  by (simp add: to_number_def MAX_SAFE_INTEGER_def)

lemma to_number_big_pos:
  assumes "MAX_SAFE_INTEGER < x"
  shows "to_number x = PosInfinity \<or> (\<exists>y. to_number x = Num y \<and> MAX_SAFE_INTEGER < y)"
proof -
  from assms have x: "2 ^ 53 \<le> x" by (simp add: MAX_SAFE_INTEGER_def)
  then have "0 < x" by simp
  then have a: "\<bar>x\<bar> = x" "sgn x = 1" "\<not> x < 0" by simp_all
  from round_half_even_big[OF x] have "MAX_SAFE_INTEGER < round_half_even x"
    by (simp add: MAX_SAFE_INTEGER_def)
  with x show ?thesis
    by (simp add: to_number_def Let_def a del: power_numeral)
qed

lemma to_number_big_neg:
  assumes "x < - MAX_SAFE_INTEGER"
  shows "to_number x = NegInfinity \<or> (\<exists>y. to_number x = Num y \<and> y < - MAX_SAFE_INTEGER)"
proof -
  from assms have x: "2 ^ 53 \<le> - x" by (simp add: MAX_SAFE_INTEGER_def)
  then have "x < 0" by simp
  then have a: "\<bar>x\<bar> = - x" "sgn x = - 1" "x < 0" by simp_all
  from round_half_even_big[OF x] have "MAX_SAFE_INTEGER < round_half_even (- x)"
    by (simp add: MAX_SAFE_INTEGER_def)
  with x show ?thesis
    by (simp add: to_number_def Let_def a del: power_numeral)
qed



lemma compare_safe:
  assumes "\<bar>s\<bar> \<le> MAX_SAFE_INTEGER"
  shows "js_le (to_number x) (Num s) = (x \<le> s)"
    and "js_ge (to_number x) (Num s) = (s \<le> x)"
    and "js_strict_eq (to_number x) (Num s) = (x = s)"
proof -
  consider (small) "\<bar>x\<bar> \<le> MAX_SAFE_INTEGER" | (pos) "MAX_SAFE_INTEGER < x"
    | (neg) "x < - MAX_SAFE_INTEGER"
    by linarith
  then have "js_le (to_number x) (Num s) = (x \<le> s) \<and>
             js_ge (to_number x) (Num s) = (s \<le> x) \<and>
             js_strict_eq (to_number x) (Num s) = (x = s)"
  proof cases
    case small
    then show ?thesis by (simp add: to_number_safe js_ge_def)
  next
    case pos
    with to_number_big_pos[OF pos] assms show ?thesis
      by (auto simp: js_ge_def)
  next
    case neg
    with to_number_big_neg[OF neg] assms show ?thesis
      by (auto simp: js_ge_def)
  qed
  then show "js_le (to_number x) (Num s) = (x \<le> s)"
    and "js_ge (to_number x) (Num s) = (s \<le> x)"
    and "js_strict_eq (to_number x) (Num s) = (x = s)"
    by simp_all
qed

subsection \<open>The pattern search\<close>

text \<open>The greedy matcher succeeds exactly on a brace, a non-empty run of class characters
  and a closing brace; the search returns the leftmost such place.\<close>

lemma is_cls_brace [simp]: "\<not> is_cls CHR ''}''" "\<not> is_cls CHR ''{''"
  by (simp_all add: is_cls_def is_digit_def)

lemma cls_run_iff:
  "cls_run s = Some b \<longleftrightarrow> (\<exists>post. s = b @ CHR ''}'' # post \<and> (\<forall>c\<in>set b. is_cls c))"
proof (induction s arbitrary: b)
  case Nil
  then show ?case by simp
next
  case (Cons c cs)
  show ?case
  proof (cases "is_cls c")
    case True
    then have ne: "c \<noteq> CHR ''}''" by auto
    show ?thesis
    proof (cases "cls_run cs")
      case None
      with Cons[of "tl b"] True ne show ?thesis
        by (cases b) (auto simp: Cons_eq_append_conv)
    next
      case (Some b')
      with Cons True ne show ?thesis
        by (cases b) (auto simp: Cons_eq_append_conv)
    qed
  next
    case False
    then show ?thesis
      by (cases b) (auto simp: Cons_eq_append_conv)
  qed
qed

lemma match_at_iff:
  "match_at s = Some cap \<longleftrightarrow>
     (\<exists>post. s = CHR ''{'' # cap @ CHR ''}'' # post \<and> cap \<noteq> [] \<and> (\<forall>c\<in>set cap. is_cls c))"
proof (cases s)
  case Nil
  then show ?thesis by simp
next
  case (Cons c t)
  show ?thesis
  proof (cases t)
    case Nil
    with Cons show ?thesis by (cases cap) auto
  next
    case (Cons d ds)
    with \<open>s = c # t\<close> show ?thesis
      by (cases cap) (auto simp: cls_run_iff)
  qed
qed

lemma cls_run_app: "cls_run (p @ CHR ''{'' # r) = cls_run p"
  by (induction p) auto

lemma match_at_app: "match_at (c # p @ CHR ''{'' # r) = match_at (c # p)"
  by (cases p) (auto simp: cls_run_app)

lemma search_app:
  "search pre = None \<Longrightarrow> match_at (CHR ''{'' # r) = Some cap \<Longrightarrow>
   search (pre @ CHR ''{'' # r) = Some (length pre, cap)"
proof (induction pre)
  case Nil
  then show ?case by simp
next
  case (Cons c pre)
  from Cons.prems(1) have m: "match_at (c # pre) = None" and s: "search pre = None"
    by (auto split: option.splits)
  from m have "match_at (c # pre @ CHR ''{'' # r) = None"
    by (simp only: match_at_app)
  with Cons.IH[OF s Cons.prems(2)] show ?case by simp
qed

lemma search_found:
  "match_at m = Some cap \<Longrightarrow> search (pre @ m) \<noteq> None"
proof (induction pre)
  case Nil
  then show ?case by (cases m) auto
next
  case (Cons c pre)
  then show ?case by (auto split: option.splits)
qed

lemma search_Some_iff:
  "search s = Some (k, cap) \<longleftrightarrow>
     (\<exists>pre post. s = pre @ CHR ''{'' # cap @ CHR ''}'' # post \<and> length pre = k \<and>
        cap \<noteq> [] \<and> (\<forall>c\<in>set cap. is_cls c) \<and> search pre = None)"
    (is "?L s k = ?R s k")
proof
  show "?L s k \<Longrightarrow> ?R s k"
  proof (induction s arbitrary: k)
    case Nil
    then show ?case by simp
  next
    case (Cons c cs)
    show ?case
    proof (cases "match_at (c # cs)")
      case (Some cap')
      with Cons.prems have "k = 0" "cap' = cap" by auto
      with Some obtain post where "c # cs = CHR ''{'' # cap @ CHR ''}'' # post"
        "cap \<noteq> []" "\<forall>c\<in>set cap. is_cls c"
        by (auto simp: match_at_iff)
      with \<open>k = 0\<close> show ?thesis by (intro exI[of _ "[]"] exI[of _ post]) simp
    next
      case None
      with Cons.prems obtain k' where k: "k = Suc k'" and s: "search cs = Some (k', cap)"
        by auto
      from Cons.IH[OF s] obtain pre post where
        cs: "cs = pre @ CHR ''{'' # cap @ CHR ''}'' # post" and l: "length pre = k'"
        and c: "cap \<noteq> []" "\<forall>c\<in>set cap. is_cls c" and p: "search pre = None"
        by blast
      from None cs have "match_at (c # pre) = None"
        by (simp add: match_at_app)
      with p have "search (c # pre) = None" by simp
      with cs l c k show ?thesis
        by (intro exI[of _ "c # pre"] exI[of _ post]) simp
    qed
  qed
next
  assume "?R s k"
  then obtain pre post where
    s: "s = pre @ CHR ''{'' # cap @ CHR ''}'' # post" and l: "length pre = k"
    and c: "cap \<noteq> []" "\<forall>c\<in>set cap. is_cls c" and p: "search pre = None"
    by blast
  from c have "match_at (CHR ''{'' # cap @ CHR ''}'' # post) = Some cap"
    by (subst match_at_iff) simp
  from search_app[OF p this] s l show "?L s k" by simp
qed

lemma search_None_iff: "search s = None \<longleftrightarrow> \<not> has_group s"
proof
  assume n: "search s = None"
  show "\<not> has_group s"
  proof
    assume "has_group s"
    then obtain pre body post where s: "s = pre @ CHR ''{'' # body @ CHR ''}'' # post"
      and b: "body \<noteq> []" "\<forall>c\<in>set body. is_cls c"
      by (auto simp: has_group_def)
    from b have "match_at (CHR ''{'' # body @ CHR ''}'' # post) = Some body"
      by (subst match_at_iff) simp
    from search_found[OF this, of pre] s n show False by simp
  qed
next
  assume h: "\<not> has_group s"
  show "search s = None"
  proof (cases "search s")
    case None
    then show ?thesis .
  next
    case (Some r)
    obtain k cap where "r = (k, cap)" by (cases r)
    with Some have "search s = Some (k, cap)" by simp
    then have "has_group s"
      unfolding search_Some_iff has_group_def by blast
    with h show ?thesis by simp
  qed
qed

subsection \<open>Splitting and parsing of tokens\<close>

lemma split_not_Nil [simp]: "split sep s \<noteq> []"
  by (induction s) (auto split: list.splits)

lemma split_no_sep: "sep \<notin> set a \<Longrightarrow> split sep a = [a]"
  by (induction a) auto

lemma split_append: "sep \<notin> set a \<Longrightarrow> split sep (a @ sep # r) = a # split sep r"
  by (induction a) auto

lemma split_chars: "w \<in> set (split sep s) \<Longrightarrow> set w \<subseteq> set s - {sep}"
proof (induction s arbitrary: w)
  case Nil
  then show ?case by simp
next
  case (Cons c cs)
  show ?case
  proof (cases "c = sep")
    case True
    with Cons show ?thesis by auto
  next
    case False
    obtain x xs where sp: "split sep cs = x # xs"
      by (cases "split sep cs") simp_all
    with Cons.prems False have "w = c # x \<or> w \<in> set xs" by simp
    then show ?thesis
    proof
      assume "w = c # x"
      moreover from Cons.IH[of x] sp have "set x \<subseteq> set cs - {sep}" by simp
      ultimately show ?thesis using False by auto
    next
      assume "w \<in> set xs"
      with Cons.IH[of w] sp show ?thesis by auto
    qed
  qed
qed

text \<open>Every string that reaches \<open>parseInt\<close> is a possibly empty run of digits, so neither
  white space nor a sign is ever met there, and the result is \<open>NaN\<close> exactly for the empty
  string.\<close>

lemma parseInt_arguments_digits:
  assumes "\<forall>c\<in>set cap. is_cls c"
    and "v \<in> set (split CHR '','' cap)" and "y \<in> set (split CHR ''-'' v)"
  shows "list_all is_digit y"
proof -
  from split_chars[OF assms(2)] split_chars[OF assms(3)]
  have "set y \<subseteq> set cap - {CHR '','', CHR ''-''}" by auto
  with assms(1) show ?thesis
    by (auto simp: list_all_iff is_cls_def)
qed

lemma is_digit_props:
  assumes "is_digit c"
  shows "\<not> is_space c" "c \<noteq> CHR ''-''" "c \<noteq> CHR ''+''" "c \<noteq> CHR '',''" "is_cls c"
    "0 \<le> digit_val c"
  using assms by (auto simp: is_digit_def is_space_def is_cls_def digit_val_def)

lemma digits_val_foldl_nonneg:
  "0 \<le> acc \<Longrightarrow> \<forall>c\<in>set ds. is_digit c \<Longrightarrow> 0 \<le> foldl (\<lambda>acc c. 10 * acc + digit_val c) acc ds"
  by (induction ds arbitrary: acc) (auto simp: is_digit_props)

lemma digits_val_nonneg: "is_digits ds \<Longrightarrow> 0 \<le> digits_val ds"
  by (simp add: is_digits_def digits_val_def digits_val_foldl_nonneg list_all_iff)

lemma parseInt_Nil [simp]: "parseInt [] = NaN"
  by (simp add: parseInt_def)

lemma parseInt_digits: "is_digits ds \<Longrightarrow> parseInt ds = to_number (digits_val ds)"
proof -
  assume d: "is_digits ds"
  then obtain c cs where ds: "ds = c # cs" and c: "is_digit c" and all: "\<forall>x\<in>set ds. is_digit x"
    by (cases ds) (auto simp: is_digits_def list_all_iff)
  from ds c have dw: "dropWhile is_space ds = ds"
    by (simp add: is_digit_props)
  from all have tw: "takeWhile is_digit ds = ds"
    by simp
  from ds c have hd: "hd ds \<noteq> CHR ''-''" "hd ds \<noteq> CHR ''+''" "ds \<noteq> []"
    by (simp_all add: is_digit_props)
  show ?thesis
    unfolding parseInt_def Let_def dw using hd by (simp add: tw)
qed

lemma is_digits_no_hyphen: "is_digits ds \<Longrightarrow> CHR ''-'' \<notin> set ds"
  using is_digit_props(2) by (auto simp: is_digits_def list_all_iff)


lemma tokenRange_pair:
  "is_digits a \<Longrightarrow> is_digits b \<Longrightarrow>
   tokenRange (a @ CHR ''-'' # b) = [to_number (digits_val a), to_number (digits_val b)]"
  by (simp add: tokenRange_def split_append split_no_sep is_digits_no_hyphen parseInt_digits)

lemma tokenRange_open:
  "is_digits a \<Longrightarrow> tokenRange (a @ ''-'') = [to_number (digits_val a), NaN]"
  by (simp add: tokenRange_def split_append is_digits_no_hyphen parseInt_digits)

lemma tokenRange_no_start:
  "t = [] \<or> hd t = CHR ''-'' \<Longrightarrow> \<exists>r. tokenRange t = NaN # r"
  by (cases t) (auto simp: tokenRange_def)

lemma digits_val_safe:
  "is_digits d \<Longrightarrow> digits_val d \<le> MAX_SAFE_INTEGER \<Longrightarrow> \<bar>digits_val d\<bar> \<le> MAX_SAFE_INTEGER"
  using digits_val_nonneg[of d] by simp


lemma tokenRange_pair_safe:
  "is_digits a \<Longrightarrow> is_digits b \<Longrightarrow>
   digits_val a \<le> MAX_SAFE_INTEGER \<Longrightarrow> digits_val b \<le> MAX_SAFE_INTEGER \<Longrightarrow>
   tokenRange (a @ CHR ''-'' # b) = [Num (digits_val a), Num (digits_val b)]"
  by (simp add: tokenRange_pair to_number_safe digits_val_safe)

lemma inRange_NaN_start: "\<not> inRange ln (NaN # r)"
  by (cases ln; cases "elem (NaN # r) 1") (auto simp: inRange_def Let_def js_ge_def)

lemma inRange_bare: "inRange (Num n) [Num s] \<longleftrightarrow> n = s"
  by (simp add: inRange_def)

lemma inRange_pair:
  "inRange (Num n) [Num s, Num e] \<longleftrightarrow> (if e \<noteq> 0 then s \<le> n \<and> n \<le> e else n = s)"
  by (simp add: inRange_def js_ge_def)

lemma inRange_open: "inRange (Num n) [Num s, NaN] \<longleftrightarrow> n = s"
  by (simp add: inRange_def)

text \<open>Against safe bounds the line number \<open>index + 1\<close> is compared as an integer,
  whatever the index.\<close>

lemma inRange_bare_safe:
  "\<bar>s\<bar> \<le> MAX_SAFE_INTEGER \<Longrightarrow> inRange (to_number x) [Num s] \<longleftrightarrow> x = s"
  by (simp add: inRange_def compare_safe)

lemma inRange_pair_safe:
  "\<bar>s\<bar> \<le> MAX_SAFE_INTEGER \<Longrightarrow> \<bar>e\<bar> \<le> MAX_SAFE_INTEGER \<Longrightarrow>
   inRange (to_number x) [Num s, Num e] \<longleftrightarrow> (if e \<noteq> 0 then s \<le> x \<and> x \<le> e else x = s)"
  by (simp add: inRange_def compare_safe)


lemma shouldHighlight_iff:
  "shouldHighlight (parseLineNumbers cap) i \<longleftrightarrow>
     (\<exists>t\<in>set (split CHR '','' cap). inRange (to_number (i + 1)) (tokenRange t))"
  by (simp add: shouldHighlight_def parseLineNumbers_def tokenRange_def list_ex_iff)

subsection \<open>The selector in terms of the search\<close>

text \<open>Without the \<open>g\<close> flag neither \<open>test\<close> nor \<open>exec\<close> reads or writes \<open>lastIndex\<close>, so the
  construction is a function of the leftmost match alone, and the closure is the
  disjunction over the comma-separated tokens.\<close>

lemma regexp_exec_plain:
  "\<not> global R \<Longrightarrow> regexp_exec R S = (R, map_option snd (search S))"
  by (auto simp: regexp_exec_def split: option.splits)

lemma regexp_test_plain:
  "\<not> global R \<Longrightarrow> regexp_test R S = (R, search S \<noteq> None)"
  by (cases "search S") (simp_all add: regexp_test_def regexp_exec_plain)

lemma build_plain:
  "\<not> global R \<Longrightarrow>
   build R meta =
     (R, Inr (case search (toString meta) of
                None \<Rightarrow> (\<lambda>index. False)
              | Some (k, cap) \<Rightarrow> shouldHighlight (parseLineNumbers cap)))"
  by (auto simp: build_def regexp_test_plain regexp_exec_plain split: option.splits)

lemma calc_None:
  "search (toString meta) = None \<Longrightarrow> calculateLinesToHighlight meta = Inr (\<lambda>index. False)"
  by (simp add: calculateLinesToHighlight_def build_plain RegEx_def)

lemma calc_Some:
  "search (toString meta) = Some (k, cap) \<Longrightarrow>
   calculateLinesToHighlight meta = Inr (shouldHighlight (parseLineNumbers cap))"
  by (simp add: calculateLinesToHighlight_def build_plain RegEx_def)

lemma line_None:
  "search (toString meta) = None \<Longrightarrow> shouldHighlightLine meta i = Inr False"
  by (simp add: shouldHighlightLine_def calc_None)

lemma line_Some:
  "search (toString meta) = Some (k, cap) \<Longrightarrow>
   shouldHighlightLine meta i =
     Inr (\<exists>t\<in>set (split CHR '','' cap). inRange (to_number (i + 1)) (tokenRange t))"
  by (simp add: shouldHighlightLine_def calc_Some shouldHighlight_iff)

lemma search_group:
  "cap \<noteq> [] \<Longrightarrow> \<forall>c\<in>set cap. is_cls c \<Longrightarrow> search (CHR ''{'' # cap @ ''}'') = Some (0, cap)"
  by (subst search_Some_iff) (auto intro!: exI[of _ "[]"])

lemma is_digits_cls: "is_digits ds \<Longrightarrow> \<forall>c\<in>set ds. is_cls c"
  by (auto simp: is_digits_def list_all_iff is_cls_def)


lemma ex_other:
  "t \<in> A \<Longrightarrow> \<not> P t \<Longrightarrow> (\<exists>x\<in>A. P x) = (\<exists>x\<in>A. x \<noteq> t \<and> P x)"
  by auto

text \<open>
  The guard matters: with the \<open>g\<close> flag on the same literal, \<open>test\<close> would move
  \<open>lastIndex\<close> past the match, \<open>exec\<close> would find nothing and the access to \<open>[1]\<close> would
  raise.
\<close>

lemma global_flag_would_fail:
  "build (RegEx\<lparr>global := True\<rparr>) (Some ''{1}'') =
     (RegEx\<lparr>global := True, lastIndex := 0\<rparr>, Inl TypeError)"
  by (simp add: build_def regexp_test_def regexp_exec_def RegEx_def is_cls_def is_digit_def)

section \<open>The claims\<close>

text \<open>
  In the statements, \<open>search (toString meta) = Some (k, cap)\<close> says that \<open>cap\<close> is the content
  of the first bracket group of the meta string and that the group starts at offset \<open>k\<close>
  (lemma \<open>search_Some_iff\<close>); the tokens of the group are \<open>split CHR '','' cap\<close>. A result
  \<open>Inr b\<close> of \<open>shouldHighlightLine meta i\<close> is the boolean that the returned closure answers
  at index \<open>i\<close>. A line number is safe when it is at most \<open>MAX_SAFE_INTEGER\<close>, that is
  \<open>2^53 - 1\<close>.
\<close>






text \<open>
  C3. For a meta string that is absent, empty or without any substring of the form brace,
  digits commas and hyphens, brace, the construction returns a closure, not an error, and
  that closure is the constant \<open>false\<close>.
\<close>

theorem no_group_never_highlights:
  assumes "meta = None \<or> meta = Some [] \<or> (\<exists>s. meta = Some s \<and> \<not> has_group s)"
  shows "calculateLinesToHighlight meta = Inr (\<lambda>index. False) \<and>
         shouldHighlightLine meta i = Inr False"
proof -
  have "search (toString meta) = None"
    using assms
  proof (elim disjE exE conjE)
    assume "meta = None"
    moreover have "search ''undefined'' = None" by code_simp
    ultimately show ?thesis by simp
  next
    assume "meta = Some []"
    then show ?thesis by simp
  next
    fix s assume "meta = Some s" "\<not> has_group s"
    then show ?thesis by (simp add: search_None_iff)
  qed
  then show ?thesis
    by (simp add: calc_None line_None)
qed

theorem no_group_never_highlights_witness:
  "\<not> has_group ''jsx'' \<and>
   calculateLinesToHighlight (Some ''jsx'') = Inr (\<lambda>index. False) \<and>
   shouldHighlightLine (Some ''jsx'') 0 = Inr False \<and>
   shouldHighlightLine None 0 = Inr False \<and>
   shouldHighlightLine (Some []) 7 = Inr False \<and>
   shouldHighlightLine (Some ''{1,a}'') 0 = Inr False"
proof -
  have h: "\<not> has_group ''jsx''"
    unfolding search_None_iff[symmetric] by code_simp
  have h2: "\<not> has_group ''{1,a}''"
    unfolding search_None_iff[symmetric] by code_simp
  from no_group_never_highlights[of "Some ''jsx''" 0] no_group_never_highlights[of None 0]
    no_group_never_highlights[of "Some []" 7] no_group_never_highlights[of "Some ''{1,a}''" 0]
    h h2
  show ?thesis by simp
qed

text \<open>
  C4. The tokens of the group combine with OR: the predicate is true at index \<open>i\<close> exactly
  when the callback of \<open>some\<close> accepts line \<open>i + 1\<close> for at least one comma-separated
  token. For \<open>{2,5}\<close> the predicate is true at 1 and 4 and false at 2; for \<open>{2,4-6,9}\<close> it
  is true at the indices 1, 3, 4, 5, 8 and false at the others from 0 to 10.
\<close>

theorem tokens_combine_with_or:
  assumes g: "search (toString meta) = Some (k, cap)"
  shows "shouldHighlightLine meta i =
           Inr (\<exists>t\<in>set (split CHR '','' cap). inRange (to_number (i + 1)) (tokenRange t)) \<and>
         shouldHighlightLine (Some ''{2,5}'') 1 = Inr True \<and>
         shouldHighlightLine (Some ''{2,5}'') 4 = Inr True \<and>
         shouldHighlightLine (Some ''{2,5}'') 2 = Inr False \<and>
         map (shouldHighlightLine (Some ''{2,4-6,9}'')) [0, 1, 2, 3, 4, 5, 6, 7, 8, 9, 10] =
           map Inr [False, True, False, True, True, True, False, False, True, False, False]"
proof (intro conjI)
  show "shouldHighlightLine meta i =
          Inr (\<exists>t\<in>set (split CHR '','' cap). inRange (to_number (i + 1)) (tokenRange t))"
    by (rule line_Some[OF g])
  show "shouldHighlightLine (Some ''{2,5}'') 1 = Inr True" by code_simp
  show "shouldHighlightLine (Some ''{2,5}'') 4 = Inr True" by code_simp
  show "shouldHighlightLine (Some ''{2,5}'') 2 = Inr False" by code_simp
  show "map (shouldHighlightLine (Some ''{2,4-6,9}'')) [0, 1, 2, 3, 4, 5, 6, 7, 8, 9, 10] =
          map Inr [False, True, False, True, True, True, False, False, True, False, False]"
    by code_simp
qed

theorem tokens_combine_with_or_witness:
  "search (toString (Some ''{2,5}'')) = Some (0, ''2,5'') \<and>
   split CHR '','' ''2,5'' = [''2'', ''5''] \<and>
   shouldHighlightLine (Some ''{2,5}'') 4 =
     Inr (inRange (Num 5) (tokenRange ''2'') \<or> inRange (Num 5) (tokenRange ''5''))"
proof -
  have g: "search (toString (Some ''{2,5}'')) = Some (0, ''2,5'')" by code_simp
  have sp: "split CHR '','' ''2,5'' = [''2'', ''5'']" by code_simp
  have tn: "to_number (4 + 1) = Num 5" by code_simp
  from tokens_combine_with_or[OF g, of 4] g sp show ?thesis by (simp only: tn) simp
qed

text \<open>
  C5. Only the first match counts. When the text before a bracket group contains no group,
  the selector built from the whole string is the selector built from that group alone,
  whatever follows it; the predicate is a function of the tokens of that group. In
  \<open>{1} {2}\<close> line 2, listed in the second group only, is not highlighted.
\<close>

theorem first_group_only:
  assumes pre: "\<not> has_group pre"
    and body: "body \<noteq> []" "list_all is_cls body"
  shows "calculateLinesToHighlight (Some (pre @ CHR ''{'' # body @ CHR ''}'' # post)) =
           calculateLinesToHighlight (Some (CHR ''{'' # body @ ''}'')) \<and>
         shouldHighlightLine (Some (pre @ CHR ''{'' # body @ CHR ''}'' # post)) i =
           Inr (\<exists>t\<in>set (split CHR '','' body). inRange (to_number (i + 1)) (tokenRange t)) \<and>
         shouldHighlightLine (Some ''{1} {2}'') 1 = Inr False"
proof -
  from body have cls: "\<forall>c\<in>set body. is_cls c" by (simp add: list_all_iff)
  from pre have p: "search pre = None" by (simp add: search_None_iff)
  have w: "search (toString (Some (pre @ CHR ''{'' # body @ CHR ''}'' # post))) =
             Some (length pre, body)"
    using body(1) cls p by (simp only: toString.simps search_Some_iff) blast
  have f: "search (toString (Some (CHR ''{'' # body @ ''}''))) = Some (0, body)"
    using search_group[OF body(1) cls] by simp
  have "shouldHighlightLine (Some ''{1} {2}'') 1 = Inr False" by code_simp
  then show ?thesis
    by (simp only: calc_Some[OF w] calc_Some[OF f] line_Some[OF w] simp_thms)
qed

theorem first_group_only_witness:
  "\<not> has_group ''js '' \<and> ''1'' \<noteq> [] \<and> list_all is_cls ''1'' \<and>
   calculateLinesToHighlight (Some ''js {1} {2}'') = calculateLinesToHighlight (Some ''{1}'') \<and>
   shouldHighlightLine (Some ''js {1} {2}'') 1 = Inr False \<and>
   shouldHighlightLine (Some ''js {1} {2}'') 0 = Inr True"
proof -
  have h: "\<not> has_group ''js ''"
    unfolding search_None_iff[symmetric] by code_simp
  have b: "''1'' \<noteq> []" "list_all is_cls ''1''" by code_simp+
  have sp: "split CHR '','' ''1'' = [''1'']" by code_simp
  have i1: "\<not> inRange (Num 2) (tokenRange ''1'')" by code_simp
  have i0: "inRange (Num 1) (tokenRange ''1'')" by code_simp
  note r = first_group_only[OF h b, of "'' {2}''"]
  have tn: "to_number (1 + 1) = Num 2" "to_number (0 + 1) = Num 1" by code_simp+
  from r[of 1] r[of 0] h b sp i0 i1 show ?thesis by (simp only: tn) simp
qed

text \<open>
  C6 (as amended). A token of the first group whose start does not parse, that is the
  empty token or a token beginning with a hyphen such as \<open>-5\<close>, is accepted by the callback
  for no line number, and the predicate is the disjunction over the other tokens.
\<close>

theorem token_without_start_never_matches:
  assumes g: "search (toString meta) = Some (k, cap)"
    and t: "t \<in> set (split CHR '','' cap)"
    and e: "t = [] \<or> hd t = CHR ''-''"
  shows "\<not> inRange lineNumber (tokenRange t) \<and>
         shouldHighlightLine meta i =
           Inr (\<exists>u\<in>set (split CHR '','' cap). u \<noteq> t \<and> inRange (to_number (i + 1)) (tokenRange u))"
proof -
  from tokenRange_no_start[OF e] obtain r where r: "tokenRange t = NaN # r" ..
  have n: "\<not> inRange ln (tokenRange t)" for ln
    unfolding r by (rule inRange_NaN_start)
  from ex_other[of _ _ "\<lambda>u. inRange (to_number (i + 1)) (tokenRange u)", OF t n]
  show ?thesis
    by (simp add: line_Some[OF g] n)
qed

theorem token_without_start_never_matches_witness:
  "search (toString (Some ''{2,,-5}'')) = Some (0, ''2,,-5'') \<and>
   split CHR '','' ''2,,-5'' = [''2'', '''', ''-5''] \<and>
   hd ''-5'' = CHR ''-'' \<and>
   \<not> inRange (Num 5) (tokenRange ''-5'') \<and>
   \<not> inRange (Num 1) (tokenRange '''') \<and>
   shouldHighlightLine (Some ''{2,,-5}'') 4 = Inr False \<and>
   shouldHighlightLine (Some ''{2,,-5}'') 1 = Inr True"
proof -
  have g: "search (toString (Some ''{2,,-5}'')) = Some (0, ''2,,-5'')" by code_simp
  have sp: "split CHR '','' ''2,,-5'' = [''2'', '''', ''-5'']" by code_simp
  have t1: "''-5'' \<in> set (split CHR '','' ''2,,-5'')" by (simp add: sp)
  have t2: "'''' \<in> set (split CHR '','' ''2,,-5'')" by (simp add: sp)
  have e1: "''-5'' = [] \<or> hd ''-5'' = CHR ''-''" by simp
  have e2: "'''' = [] \<or> hd '''' = CHR ''-''" by simp
  have o: "\<not> inRange (Num 5) (tokenRange ''2'')" "\<not> inRange (Num 5) (tokenRange '''')"
    "inRange (Num 2) (tokenRange ''2'')"
    by code_simp+
  have tn: "to_number (4 + 1) = Num 5" "to_number (1 + 1) = Num 2" by code_simp+
  from token_without_start_never_matches[OF g t1 e1, of "Num 5" 4]
    token_without_start_never_matches[OF g t2 e2, of "Num 1" 1] g o
  show ?thesis by (simp only: tn) (simp add: sp)
qed

text \<open>
  C6 as stated fails for a token whose start parses and whose end is empty: in \<open>5-\<close> the
  end is \<open>NaN\<close>, which is falsy, so the token is compared like the bare token \<open>5\<close> and
  line 5 is highlighted.
\<close>

theorem open_ended_token_counterexample:
  "search (toString (Some ''{5-}'')) = Some (0, ''5-'') \<and>
   split CHR '','' ''5-'' = [''5-''] \<and>
   split CHR ''-'' ''5-'' = [''5'', ''''] \<and> parseInt '''' = NaN \<and>
   tokenRange ''5-'' = [Num 5, NaN] \<and>
   inRange (Num (4 + 1)) (tokenRange ''5-'') \<and>
   shouldHighlightLine (Some ''{5-}'') 4 = Inr True"
  by code_simp




text \<open>
  C9 (as amended). A token \<open>a-b\<close> whose right-hand side parses to 0 and whose left-hand
  side is safe is compared like the bare token \<open>a\<close>: the callback accepts the line number
  \<open>n\<close> exactly when \<open>n\<close> is the value of \<open>a\<close>, and the group \<open>{a-b}\<close> gives a predicate true
  at the index \<open>a - 1\<close> only. The bare token \<open>0\<close> is accepted at no index \<open>i \<ge> 0\<close>.
\<close>

theorem zero_end_is_single_line:
  assumes d: "is_digits a" "is_digits b"
    and z: "digits_val b = 0"
    and safe: "digits_val a \<le> MAX_SAFE_INTEGER"
  shows "inRange (to_number n) (tokenRange (a @ CHR ''-'' # b)) = (n = digits_val a) \<and>
         shouldHighlightLine (Some (CHR ''{'' # a @ CHR ''-'' # b @ ''}'')) i =
           Inr (i = digits_val a - 1) \<and>
         (0 \<le> i \<longrightarrow> \<not> inRange (to_number (i + 1)) (tokenRange ''0'') \<and>
                  shouldHighlightLine (Some ''{0}'') i = Inr False)"
proof (intro conjI impI)
  have s0: "\<bar>0::int\<bar> \<le> MAX_SAFE_INTEGER" by (simp add: MAX_SAFE_INTEGER_def)
  from z have sb: "digits_val b \<le> MAX_SAFE_INTEGER" by (simp add: MAX_SAFE_INTEGER_def)
  show tok: "inRange (to_number n) (tokenRange (a @ CHR ''-'' # b)) = (n = digits_val a)" for n
    using inRange_pair_safe[OF digits_val_safe[OF d(1) safe] digits_val_safe[OF d(2) sb], of n]
    by (simp add: tokenRange_pair_safe[OF d safe sb] z)
  let ?cap = "a @ CHR ''-'' # b"
  have cls: "\<forall>c\<in>set ?cap. is_cls c"
    using is_digits_cls[OF d(1)] is_digits_cls[OF d(2)] by (auto simp: is_cls_def)
  have "search (CHR ''{'' # ?cap @ ''}'') = Some (0, ?cap)"
    by (rule search_group[OF _ cls]) simp
  then have s: "search (toString (Some (CHR ''{'' # a @ CHR ''-'' # b @ ''}''))) = Some (0, ?cap)"
    by simp
  have nc: "CHR '','' \<notin> set ?cap"
    using d is_digit_props(4) by (auto simp: is_digits_def list_all_iff)
  show "shouldHighlightLine (Some (CHR ''{'' # a @ CHR ''-'' # b @ ''}'')) i =
          Inr (i = digits_val a - 1)"
    unfolding line_Some[OF s] split_no_sep[OF nc] by (auto simp: tok)
  have tr: "tokenRange ''0'' = [Num 0]" by code_simp
  {
    assume i: "0 \<le> i"
    then show "\<not> inRange (to_number (i + 1)) (tokenRange ''0'')"
      by (simp add: tr inRange_bare_safe[OF s0])
  }
  {
    assume i: "0 \<le> i"
    have s: "search (toString (Some ''{0}'')) = Some (0, ''0'')" by code_simp
    have sp: "split CHR '','' ''0'' = [''0'']" by code_simp
    from i show "shouldHighlightLine (Some ''{0}'') i = Inr False"
      unfolding line_Some[OF s] sp by (simp add: tr inRange_bare_safe[OF s0])
  }
qed

theorem zero_end_is_single_line_witness:
  "is_digits ''7'' \<and> is_digits ''0'' \<and> digits_val ''0'' = 0 \<and> digits_val ''7'' = 7 \<and>
   digits_val ''7'' \<le> MAX_SAFE_INTEGER \<and>
   inRange (to_number 7) (tokenRange ''7-0'') \<and>
   \<not> inRange (to_number 3) (tokenRange ''7-0'') \<and>
   shouldHighlightLine (Some ''{7-0}'') 6 = Inr True \<and>
   shouldHighlightLine (Some ''{7-0}'') 0 = Inr False \<and>
   (0::int) \<le> 0 \<and> shouldHighlightLine (Some ''{0}'') 0 = Inr False"
proof -
  have d: "is_digits ''7''" "is_digits ''0''" by code_simp+
  have z: "digits_val ''0'' = 0" by code_simp
  have v: "digits_val ''7'' = 7" by code_simp
  have safe: "digits_val ''7'' \<le> MAX_SAFE_INTEGER" by code_simp
  note r = zero_end_is_single_line[OF d z safe, unfolded v]
  from r[of 7 6] r[of 3 0] d z v safe show ?thesis by simp
qed

text \<open>
  C9 as stated fails where \<open>parseInt\<close> rounds: in \<open>9007199254740993-0\<close> the left-hand side
  is written \<open>2^53 + 1\<close> and parses to the Number \<open>2^53\<close>, so the predicate is true at the
  index \<open>2^53 - 1\<close>, which is not \<open>N - 1\<close> for the written \<open>N\<close>.
\<close>

theorem zero_end_rounding_counterexample:
  "is_digits ''9007199254740993'' \<and> is_digits ''0'' \<and> digits_val ''0'' = 0 \<and>
   digits_val ''9007199254740993'' - 1 = 9007199254740992 \<and>
   tokenRange ''9007199254740993-0'' = [Num 9007199254740992, Num 0] \<and>
   is_number 9007199254740991 \<and>
   shouldHighlightLine (Some ''{9007199254740993-0}'') 9007199254740991 = Inr True"
  by code_simp

text \<open>
  C10. The construction never raises: for every meta string, absent or present, it returns
  a closure, and the query at any integer index returns a boolean. When \<open>test\<close> has
  succeeded on a string, \<open>exec\<close> on the object that \<open>test\<close> left finds a match on the same
  string, so reading capture group 1 does not fail. All functions of the model are
  structurally recursive, so each call terminates.
\<close>

theorem construction_total:
  "(\<exists>p. calculateLinesToHighlight meta = Inr p) \<and>
   (\<exists>b. shouldHighlightLine meta i = Inr b) \<and>
   (snd (regexp_test RegEx s) \<longrightarrow>
      (\<exists>cap. snd (regexp_exec (fst (regexp_test RegEx s)) s) = Some cap))"
proof (intro conjI impI)
  have ng: "\<not> global RegEx" by (simp add: RegEx_def)
  show "\<exists>p. calculateLinesToHighlight meta = Inr p"
    by (simp add: calculateLinesToHighlight_def build_plain[OF ng])
  then show "\<exists>b. shouldHighlightLine meta i = Inr b"
    by (auto simp: shouldHighlightLine_def)
  assume "snd (regexp_test RegEx s)"
  then show "\<exists>cap. snd (regexp_exec (fst (regexp_test RegEx s)) s) = Some cap"
    by (auto simp: regexp_test_plain[OF ng] regexp_exec_plain[OF ng])
qed

theorem construction_total_witness:
  "snd (regexp_test RegEx ''{1}'') \<and>
   (\<exists>cap. snd (regexp_exec (fst (regexp_test RegEx ''{1}'')) ''{1}'') = Some cap) \<and>
   (\<exists>p. calculateLinesToHighlight (Some ''{1}'') = Inr p) \<and>
   (\<exists>b. shouldHighlightLine (Some ''{1}'') 0 = Inr b)"
proof -
  have t: "snd (regexp_test RegEx ''{1}'')" by code_simp
  from construction_total[of "Some ''{1}''" 0 "''{1}''"] t show ?thesis by simp
qed

end
